theory Spec2Isabelle
  imports Main "HOL-Library.AList"
begin

section \<open>Session registry (services/chat/SessionManager.js)\<close>

text \<open>
  A session object has the four fields the constructor's comment lists. \<open>threadId\<close> and
  \<open>timeoutId\<close> are \<open>null\<close> until set. \<open>lastActive\<close> is a \<open>Date.now()\<close> value
  (milliseconds, an integer). A timer handle is the object Node's \<open>setTimeout\<close> returns;
  it is always truthy, so \<open>if (session.timeoutId)\<close> is the test "is not null".
\<close>

datatype status = Active | PendingDeletion

record session =
  threadId :: "string option"
  lastActive :: int
  timeoutId :: "nat option"
  status :: status

text \<open>
  The manager owns the \<open>sessions\<close> Map; a JavaScript Map iterates in insertion order, so it
  is an association list. The timers that are armed and have not fired or been cleared
  belong to the runtime: \<open>timers\<close> lists each live handle with the session id its callback
  was created for, and \<open>nextTimer\<close> is the next handle \<open>setTimeout\<close> hands out.
\<close>

record manager =
  sessions :: "(string \<times> session) list"
  timers :: "(nat \<times> string) list"
  nextTimer :: nat

definition SESSION_TIMEOUT :: int where
  "SESSION_TIMEOUT = 30 * 60 * 1000"

definition emptyManager :: manager where
  "emptyManager = \<lparr>sessions = [], timers = [], nextTimer = 0\<rparr>"

text \<open>\<open>setTimeout(() => this.cleanupCallback(sessionId), SESSION_TIMEOUT)\<close> and \<open>clearTimeout\<close>.\<close>

definition setTimeout :: "string \<Rightarrow> manager \<Rightarrow> nat \<times> manager" where
  "setTimeout sessionId m =
     (nextTimer m,
      m\<lparr>timers := timers m @ [(nextTimer m, sessionId)], nextTimer := Suc (nextTimer m)\<rparr>)"

definition clearTimeout :: "nat \<Rightarrow> manager \<Rightarrow> manager" where
  "clearTimeout h m = m\<lparr>timers := filter (\<lambda>p. fst p \<noteq> h) (timers m)\<rparr>"

text \<open>
  Writing a field of a session object that the Map holds: the entry keeps its place.
  \<open>Map.set\<close> with a new key appends the entry. Both are \<open>AList.update\<close>.
\<close>

definition putSession :: "string \<Rightarrow> session \<Rightarrow> manager \<Rightarrow> manager" where
  "putSession sessionId s m = m\<lparr>sessions := AList.update sessionId s (sessions m)\<rparr>"

text \<open>\<open>createSession\<close>; the value of \<open>uuidv4()\<close> and of \<open>Date.now()\<close> are parameters.\<close>

definition createSession :: "string \<Rightarrow> int \<Rightarrow> manager \<Rightarrow> string \<times> manager" where
  "createSession uuid now m =
     (uuid,
      putSession uuid
        \<lparr>threadId = None, lastActive = now, timeoutId = None, status = Active\<rparr> m)"

definition getSession :: "string \<Rightarrow> manager \<Rightarrow> session option" where
  "getSession sessionId m = map_of (sessions m) sessionId"

definition hasSession :: "string \<Rightarrow> manager \<Rightarrow> bool" where
  "hasSession sessionId m =
     (case getSession sessionId m of None \<Rightarrow> False | Some s \<Rightarrow> status s = Active)"

definition scheduleCleanup :: "string \<Rightarrow> manager \<Rightarrow> manager" where
  "scheduleCleanup sessionId m =
     (case getSession sessionId m of
        None \<Rightarrow> m
      | Some s \<Rightarrow>
          if status s \<noteq> Active then m
          else
            let m1 = (case timeoutId s of Some h \<Rightarrow> clearTimeout h m | None \<Rightarrow> m);
                (h', m2) = setTimeout sessionId m1
            in putSession sessionId (s\<lparr>timeoutId := Some h'\<rparr>) m2)"

text \<open>\<open>refreshSession\<close> returns the session object (as it is after the call) or \<open>null\<close>.\<close>

definition refreshSession :: "int \<Rightarrow> string \<Rightarrow> manager \<Rightarrow> session option \<times> manager" where
  "refreshSession now sessionId m =
     (case getSession sessionId m of
        None \<Rightarrow> (None, m)
      | Some s \<Rightarrow>
          if status s \<noteq> Active then (None, m)
          else
            let s1 = s\<lparr>lastActive := now\<rparr>;
                (s2, m1) = (case timeoutId s1 of
                              Some h \<Rightarrow> (s1\<lparr>timeoutId := None\<rparr>, clearTimeout h m)
                            | None \<Rightarrow> (s1, m));
                m2 = scheduleCleanup sessionId (putSession sessionId s2 m1)
            in (getSession sessionId m2, m2))"

definition markSessionForDeletion :: "string \<Rightarrow> manager \<Rightarrow> bool \<times> manager" where
  "markSessionForDeletion sessionId m =
     (case getSession sessionId m of
        None \<Rightarrow> (False, m)
      | Some s \<Rightarrow> (True, putSession sessionId (s\<lparr>status := PendingDeletion\<rparr>) m))"

definition deleteSession :: "string \<Rightarrow> manager \<Rightarrow> manager" where
  "deleteSession sessionId m =
     (let m1 = (case getSession sessionId m of
                  None \<Rightarrow> m
                | Some s \<Rightarrow> (case timeoutId s of Some h \<Rightarrow> clearTimeout h m | None \<Rightarrow> m))
      in m1\<lparr>sessions := AList.delete sessionId (sessions m1)\<rparr>)"

text \<open>The \<open>for ... of this.sessions.entries()\<close> loop of \<open>getExpiredSessions\<close>.\<close>

definition isExpired :: "int \<Rightarrow> session \<Rightarrow> bool" where
  "isExpired now s =
     (status s = PendingDeletion \<or> (now - lastActive s > SESSION_TIMEOUT \<and> status s = Active))"

fun expiredLoop :: "int \<Rightarrow> (string \<times> session) list \<Rightarrow> string list \<Rightarrow> string list" where
  "expiredLoop now [] expiredSessions = expiredSessions"
| "expiredLoop now ((sessionId, s) # rest) expiredSessions =
     expiredLoop now rest
       (if isExpired now s then expiredSessions @ [sessionId] else expiredSessions)"

definition getExpiredSessions :: "int \<Rightarrow> manager \<Rightarrow> string list" where
  "getExpiredSessions now m = expiredLoop now (sessions m) []"

section \<open>Chat service (services/chat/index.js)\<close>

text \<open>
  What the server emits: \<open>socket.emit\<close> to one client and \<open>io.emit\<close> (\<open>clear_chat\<close>) to all.
  \<open>SessionCreated\<close> carries the new id and the optional \<open>info\<close> field.
\<close>

datatype client_event =
    SessionCreated string "string option"
  | SessionResumed string
  | ErrorEvent string
  | TextCreatedEvent string
  | TextDeltaEvent string string
  | ResponseComplete
  | Suggestions "string list option"
  | ClearChat string

text \<open>JavaScript truthiness of a value that is \<open>null\<close>/\<open>undefined\<close> or a string.\<close>

definition truthy :: "string option \<Rightarrow> bool" where
  "truthy v = (case v of None \<Rightarrow> False | Some x \<Rightarrow> x \<noteq> [])"

subsection \<open>Socket handlers\<close>

text \<open>
  Each handler takes the closure variable \<open>sessionId\<close> of the connection where it reads
  it, and returns its new value, the events emitted and the manager.
\<close>

definition init_session ::
  "string \<Rightarrow> int \<Rightarrow> manager \<Rightarrow> string option \<times> client_event list \<times> manager" where
  "init_session uuid now m =
     (let (sid, m1) = createSession uuid now m in (Some sid, [SessionCreated sid None], m1))"

definition resume_session ::
  "string option \<Rightarrow> string \<Rightarrow> int \<Rightarrow> manager \<Rightarrow> string option \<times> client_event list \<times> manager" where
  "resume_session dataSessionId uuid now m =
     (if truthy dataSessionId \<and> hasSession (the dataSessionId) m then
        let sid = the dataSessionId;
            (session, m1) = refreshSession now sid m
        in (case session of
              Some _ \<Rightarrow> (Some sid, [SessionResumed sid], m1)
            | None \<Rightarrow>
                let (sid', m2) = createSession uuid now m1
                in (Some sid', [SessionCreated sid' (Some ''Previous session expired'')], m2))
      else
        let (sid', m1) = createSession uuid now m
        in (Some sid', [SessionCreated sid' None], m1))"

definition disconnect :: "string option \<Rightarrow> manager \<Rightarrow> manager" where
  "disconnect sessionId m =
     (if truthy sessionId \<and> hasSession (the sessionId) m
      then scheduleCleanup (the sessionId) m else m)"

subsection \<open>Prompt turns\<close>

text \<open>
  The conversation backend and the suggestion model are outside the program; what they
  answer in one turn is a parameter. \<open>runsStream\<close> is \<open>None\<close> when starting the stream
  throws, and otherwise the events the stream delivers to the registered handlers, in
  order. \<open>completion\<close> is what the chat-completion call and \<open>JSON.parse\<close> come to:
  the call rejects, the content is not JSON, or an object whose \<open>quick_replies\<close> field is
  read (\<open>None\<close> when the field is missing).
\<close>

datatype stream_event = TextCreated string | TextDelta string string | StreamError | StreamEnd

datatype api_result = ApiRejected | MalformedJson | QuickReplies "string list option"

record backend =
  retrieveAssistant :: bool
  threadsCreate :: "string option"
  messagesCreate :: bool
  runsStream :: "stream_event list option"
  completion :: api_result

text \<open>
  \<open>SuggestionGenerator.generate\<close>: everything that can throw is inside its \<open>try\<close>, and
  the \<open>catch\<close> returns the empty array. The result type keeps the rejected promise
  (\<open>Inl\<close>) that the caller's own \<open>try\<close> is written for.
\<close>

definition generate :: "api_result \<Rightarrow> string \<Rightarrow> string \<Rightarrow> unit + string list option" where
  "generate api prompt response =
     (case api of
        QuickReplies q \<Rightarrow> Inr q
      | ApiRejected \<Rightarrow> Inr (Some [])
      | MalformedJson \<Rightarrow> Inr (Some []))"

text \<open>
  The state of one turn: the text aggregated so far, the events emitted on the socket,
  and the calls made to the suggestion generator.
\<close>

record turn =
  fullResponse :: string
  emitted :: "client_event list"
  generateCalls :: "(string \<times> string) list"

definition emit :: "client_event \<Rightarrow> turn \<Rightarrow> turn" where
  "emit e t = t\<lparr>emitted := emitted t @ [e]\<rparr>"

definition onStreamEnd :: "api_result \<Rightarrow> string \<Rightarrow> string \<Rightarrow> turn \<times> manager \<Rightarrow> turn \<times> manager" where
  "onStreamEnd api sessionId prompt tm =
     (let t1 = emit ResponseComplete (fst tm);
          t2 = t1\<lparr>generateCalls := generateCalls t1 @ [(prompt, fullResponse t1)]\<rparr>;
          t3 = (case generate api prompt (fullResponse t2) of
                  Inr suggestions \<Rightarrow> emit (Suggestions suggestions) t2
                | Inl _ \<Rightarrow> t2)
      in (t3, scheduleCleanup sessionId (snd tm)))"

fun onStreamEvent ::
  "api_result \<Rightarrow> string \<Rightarrow> string \<Rightarrow> stream_event \<Rightarrow> turn \<times> manager \<Rightarrow> turn \<times> manager" where
  "onStreamEvent api sessionId prompt (TextCreated text) (t, m) = (emit (TextCreatedEvent text) t, m)"
| "onStreamEvent api sessionId prompt (TextDelta v snapshot) (t, m) =
     (emit (TextDeltaEvent v snapshot) (t\<lparr>fullResponse := fullResponse t @ v\<rparr>), m)"
| "onStreamEvent api sessionId prompt StreamError (t, m) =
     (emit (ErrorEvent ''Error during response streaming'') t, m)"
| "onStreamEvent api sessionId prompt StreamEnd (t, m) = onStreamEnd api sessionId prompt (t, m)"

fun streamEvents ::
  "api_result \<Rightarrow> string \<Rightarrow> string \<Rightarrow> stream_event list \<Rightarrow> turn \<times> manager \<Rightarrow> turn \<times> manager" where
  "streamEvents api sessionId prompt [] tm = tm"
| "streamEvents api sessionId prompt (e # es) tm =
     streamEvents api sessionId prompt es (onStreamEvent api sessionId prompt e tm)"

definition newTurn :: turn where
  "newTurn = \<lparr>fullResponse = [], emitted = [], generateCalls = []\<rparr>"

definition handlePrompt :: "backend \<Rightarrow> string \<Rightarrow> string \<Rightarrow> manager \<Rightarrow> turn \<times> manager" where
  "handlePrompt b sessionId prompt m =
     (case getSession sessionId m of
        None \<Rightarrow> (emit (ErrorEvent ''Session is no longer active'') newTurn, m)
      | Some s \<Rightarrow>
          if status s \<noteq> Active then (emit (ErrorEvent ''Session is no longer active'') newTurn, m)
          else if \<not> retrieveAssistant b then
            (emit (ErrorEvent ''Could not retrieve assistant'') newTurn, m)
          else if \<not> truthy (threadId s) \<and> threadsCreate b = None then
            (emit (ErrorEvent ''Could not create conversation thread'') newTurn, m)
          else
            let m1 = (if \<not> truthy (threadId s)
                      then putSession sessionId (s\<lparr>threadId := threadsCreate b\<rparr>) m else m)
            in if \<not> messagesCreate b then
                 (emit (ErrorEvent ''Could not add your message'') newTurn, m1)
               else
                 (case runsStream b of
                    None \<Rightarrow> (emit (ErrorEvent ''Could not generate response'') newTurn, m1)
                  | Some events \<Rightarrow> streamEvents (completion b) sessionId prompt events (newTurn, m1)))"

definition send_prompt ::
  "backend \<Rightarrow> string option \<Rightarrow> string \<Rightarrow> int \<Rightarrow> manager \<Rightarrow> turn \<times> manager" where
  "send_prompt b sessionId prompt now m =
     (if \<not> truthy sessionId \<or> \<not> hasSession (the sessionId) m then
        (emit (ErrorEvent ''Invalid session'') newTurn, m)
      else
        (case refreshSession now (the sessionId) m of
           (None, m1) \<Rightarrow> (emit (ErrorEvent ''Session expired'') newTurn, m1)
         | (Some _, m1) \<Rightarrow> handlePrompt b (the sessionId) prompt m1))"

text \<open>The events that forward the text of the reply.\<close>

definition isTextEvent :: "client_event \<Rightarrow> bool" where
  "isTextEvent e = ((\<exists>x. e = TextCreatedEvent x) \<or> (\<exists>v sn. e = TextDeltaEvent v sn))"



subsection \<open>Cleanup\<close>

text \<open>
  \<open>cleanupSession\<close> runs up to its \<open>await\<close> of \<open>threads.del\<close> (\<open>cleanupSessionBegin\<close>,
  which says whether the deletion was requested) and goes on when the deletion has
  resolved or rejected (\<open>cleanupSessionResume\<close>). A rejection carries \<open>error.status\<close>.
  The events are those of \<open>io.emit\<close>; the function has no socket to emit an error on.
\<close>

datatype del_result = Deleted | DelError "nat option"

definition cleanupSessionBegin :: "string \<Rightarrow> manager \<Rightarrow> bool \<times> manager" where
  "cleanupSessionBegin sessionId m =
     (case getSession sessionId m of
        None \<Rightarrow> (False, m)
      | Some s \<Rightarrow>
          (case markSessionForDeletion sessionId m of
             (False, m1) \<Rightarrow> (False, m1)
           | (True, m1) \<Rightarrow>
               if truthy (threadId s) then (True, m1)
               else (False, deleteSession sessionId m1)))"

definition cleanupSessionResume ::
  "string \<Rightarrow> del_result \<Rightarrow> manager \<Rightarrow> client_event list \<times> manager" where
  "cleanupSessionResume sessionId r m =
     (case r of
        Deleted \<Rightarrow> ([ClearChat sessionId], deleteSession sessionId m)
      | DelError st \<Rightarrow> if st = Some 404 then ([], deleteSession sessionId m) else ([], m))"

definition cleanupSession ::
  "del_result \<Rightarrow> string \<Rightarrow> manager \<Rightarrow> client_event list \<times> manager" where
  "cleanupSession r sessionId m =
     (case cleanupSessionBegin sessionId m of
        (True, m1) \<Rightarrow> cleanupSessionResume sessionId r m1
      | (False, m1) \<Rightarrow> ([], m1))"

text \<open>\<open>cleanupExpiredSessions\<close>: the sweep; \<open>del\<close> gives the outcome of each deletion.\<close>

fun cleanupLoop ::
  "(string \<Rightarrow> del_result) \<Rightarrow> string list \<Rightarrow> client_event list \<times> manager \<Rightarrow> client_event list \<times> manager" where
  "cleanupLoop del [] em = em"
| "cleanupLoop del (sessionId # rest) (evs, m) =
     (let (evs', m') = cleanupSession (del sessionId) sessionId m
      in cleanupLoop del rest (evs @ evs', m'))"

definition cleanupExpiredSessions ::
  "(string \<Rightarrow> del_result) \<Rightarrow> int \<Rightarrow> manager \<Rightarrow> client_event list \<times> manager" where
  "cleanupExpiredSessions del now m = cleanupLoop del (getExpiredSessions now m) ([], m)"

section \<open>Runs of the registry\<close>

text \<open>
  A timer that fires leaves the runtime's table and calls \<open>cleanupCallback\<close>, which the
  service binds to \<open>cleanupSession\<close>.
\<close>

definition fireTimer :: "del_result \<Rightarrow> nat \<Rightarrow> manager \<Rightarrow> client_event list \<times> manager" where
  "fireTimer r h m =
     (case map_of (timers m) h of
        None \<Rightarrow> ([], m)
      | Some sessionId \<Rightarrow> cleanupSession r sessionId (clearTimeout h m))"

text \<open>\<open>session.threadId = thread.id\<close> in \<open>handlePrompt\<close>, as a step of its own.\<close>

definition setThreadId :: "string \<Rightarrow> string \<Rightarrow> manager \<Rightarrow> manager" where
  "setThreadId sessionId tid m =
     (case getSession sessionId m of
        None \<Rightarrow> m
      | Some s \<Rightarrow> putSession sessionId (s\<lparr>threadId := Some tid\<rparr>) m)"

text \<open>
  The calls that reach the registry, in any order: the manager's own methods, the
  thread binding, a timer firing and a cleanup started by the sweep.
\<close>

datatype op =
    Create string int
  | Refresh string int
  | Schedule string
  | Mark string
  | Delete string
  | SetThread string string
  | Fire nat del_result
  | Cleanup string del_result

fun step :: "op \<Rightarrow> manager \<Rightarrow> manager" where
  "step (Create uuid now) m = snd (createSession uuid now m)"
| "step (Refresh sessionId now) m = snd (refreshSession now sessionId m)"
| "step (Schedule sessionId) m = scheduleCleanup sessionId m"
| "step (Mark sessionId) m = snd (markSessionForDeletion sessionId m)"
| "step (Delete sessionId) m = deleteSession sessionId m"
| "step (SetThread sessionId tid) m = setThreadId sessionId tid m"
| "step (Fire h r) m = snd (fireTimer r h m)"
| "step (Cleanup sessionId r) m = snd (cleanupSession r sessionId m)"

fun run :: "op list \<Rightarrow> manager \<Rightarrow> manager" where
  "run [] m = m"
| "run (x # xs) m = run xs (step x m)"

text \<open>\<open>uuidv4()\<close> never returns an id that is a key of the Map at that moment.\<close>

fun uuidFresh :: "op list \<Rightarrow> manager \<Rightarrow> bool" where
  "uuidFresh [] m = True"
| "uuidFresh (x # xs) m =
     ((case x of Create uuid now \<Rightarrow> getSession uuid m = None | _ \<Rightarrow> True)
      \<and> uuidFresh xs (step x m))"

text \<open>The live timers whose callback is for a given session.\<close>

definition liveTimers :: "string \<Rightarrow> manager \<Rightarrow> nat list" where
  "liveTimers sessionId m = map fst (filter (\<lambda>p. snd p = sessionId) (timers m))"

text \<open>
  The invariant of the timer table: a live timer is the \<open>timeoutId\<close> of its session,
  handles are not repeated, and all are below \<open>nextTimer\<close>.
\<close>

definition timerInv :: "manager \<Rightarrow> bool" where
  "timerInv m =
     ((\<forall>p \<in> set (timers m). \<exists>s. getSession (snd p) m = Some s \<and> timeoutId s = Some (fst p))
      \<and> distinct (map fst (timers m))
      \<and> (\<forall>p \<in> set (timers m). fst p < nextTimer m))"

section \<open>Properties of the registry\<close>

lemma getSession_putSession:
  "getSession k (putSession k' s m) = (if k = k' then Some s else getSession k m)"
  by (simp add: getSession_def putSession_def update_conv')

lemma expiredLoop_filter:
  "expiredLoop now xs acc = acc @ map fst (filter (\<lambda>p. isExpired now (snd p)) xs)"
  by (induction xs arbitrary: acc) auto

lemma getSession_clearTimeout [simp]: "getSession k (clearTimeout h m) = getSession k m"
  by (simp add: getSession_def clearTimeout_def)

lemma timers_putSession [simp]: "timers (putSession k s m) = timers m"
  by (simp add: putSession_def)

lemma nextTimer_putSession [simp]: "nextTimer (putSession k s m) = nextTimer m"
  by (simp add: putSession_def)

lemma getSession_delete:
  "getSession k (m\<lparr>sessions := AList.delete k' (sessions m)\<rparr>) = (if k = k' then None else getSession k m)"
  by (simp add: getSession_def delete_conv')

lemma liveTimers_empty_iff: "liveTimers sid m = [] \<longleftrightarrow> (\<forall>p \<in> set (timers m). snd p \<noteq> sid)"
  by (auto simp: liveTimers_def filter_empty_conv)

lemma timerInv_clearTimeout: "timerInv m \<Longrightarrow> timerInv (clearTimeout h m)"
  by (auto simp: timerInv_def clearTimeout_def distinct_map_filter getSession_def)

lemma timerInv_putSession_same:
  "timerInv m \<Longrightarrow> getSession sid m = Some s \<Longrightarrow> timeoutId s' = timeoutId s
   \<Longrightarrow> timerInv (putSession sid s' m)"
  by (auto simp: timerInv_def getSession_putSession)

lemma timerInv_putSession_idle:
  "timerInv m \<Longrightarrow> liveTimers sid m = [] \<Longrightarrow> timerInv (putSession sid s' m)"
  by (auto simp: timerInv_def getSession_putSession liveTimers_empty_iff)

lemma liveTimers_absent:
  "timerInv m \<Longrightarrow> getSession sid m = None \<Longrightarrow> liveTimers sid m = []"
  by (auto simp: timerInv_def liveTimers_empty_iff)

lemma liveTimers_unarmed:
  "timerInv m \<Longrightarrow> getSession sid m = Some s \<Longrightarrow> timeoutId s = None \<Longrightarrow> liveTimers sid m = []"
  by (auto simp: timerInv_def liveTimers_empty_iff)

lemma liveTimers_cleared:
  "timerInv m \<Longrightarrow> getSession sid m = Some s \<Longrightarrow> timeoutId s = Some h
   \<Longrightarrow> liveTimers sid (clearTimeout h m) = []"
  by (auto simp: timerInv_def liveTimers_empty_iff clearTimeout_def)

lemma liveTimers_putSession [simp]: "liveTimers k (putSession k' s m) = liveTimers k m"
  by (simp add: liveTimers_def)

lemma getSession_setTimeout [simp]: "getSession k (snd (setTimeout sid m)) = getSession k m"
  by (simp add: getSession_def setTimeout_def)

lemma timerInv_arm:
  assumes inv: "timerInv m" and idle: "liveTimers sid m = []"
  shows "timerInv (putSession sid (s\<lparr>timeoutId := Some (nextTimer m)\<rparr>) (snd (setTimeout sid m)))"
proof -
  let ?m' = "putSession sid (s\<lparr>timeoutId := Some (nextTimer m)\<rparr>) (snd (setTimeout sid m))"
  have t: "timers ?m' = timers m @ [(nextTimer m, sid)]"
    by (simp add: setTimeout_def)
  have n: "nextTimer ?m' = Suc (nextTimer m)"
    by (simp add: setTimeout_def)
  have g: "getSession k ?m' = (if k = sid then Some (s\<lparr>timeoutId := Some (nextTimer m)\<rparr>) else getSession k m)" for k
    by (simp add: getSession_putSession)
  have other: "snd p \<noteq> sid" if "p \<in> set (timers m)" for p
    using idle that by (simp add: liveTimers_empty_iff)
  have below: "fst p < nextTimer m" if "p \<in> set (timers m)" for p
    using inv that by (simp add: timerInv_def)
  have own: "\<exists>s. getSession (snd p) m = Some s \<and> timeoutId s = Some (fst p)" if "p \<in> set (timers m)" for p
    using inv that by (simp add: timerInv_def)
  have a: "\<forall>p \<in> set (timers ?m'). \<exists>s. getSession (snd p) ?m' = Some s \<and> timeoutId s = Some (fst p)"
    unfolding t using own other by (auto simp: g)
  have "nextTimer m \<notin> fst ` set (timers m)"
    using below by fastforce
  moreover have "distinct (map fst (timers m))"
    using inv by (simp add: timerInv_def)
  ultimately have b: "distinct (map fst (timers ?m'))"
    unfolding t by simp
  have c: "\<forall>p \<in> set (timers ?m'). fst p < nextTimer ?m'"
    unfolding t n using below by (auto simp: less_Suc_eq)
  from a b c show ?thesis unfolding timerInv_def by blast
qed

lemma timerInv_scheduleCleanup: "timerInv m \<Longrightarrow> timerInv (scheduleCleanup sid m)"
proof -
  assume inv: "timerInv m"
  show ?thesis
  proof (cases "getSession sid m")
    case None
    then show ?thesis using inv by (simp add: scheduleCleanup_def)
  next
    case (Some s)
    show ?thesis
    proof (cases "status s = Active")
      case False
      then show ?thesis using inv Some by (simp add: scheduleCleanup_def)
    next
      case True
      define m1 where "m1 = (case timeoutId s of Some h \<Rightarrow> clearTimeout h m | None \<Rightarrow> m)"
      have inv1: "timerInv m1"
        using inv by (simp add: m1_def timerInv_clearTimeout split: option.splits)
      have idle: "liveTimers sid m1 = []"
        using inv Some by (auto simp: m1_def liveTimers_unarmed liveTimers_cleared split: option.splits)
      have "scheduleCleanup sid m =
              putSession sid (s\<lparr>timeoutId := Some (nextTimer m1)\<rparr>) (snd (setTimeout sid m1))"
        using Some True by (simp add: scheduleCleanup_def m1_def setTimeout_def Let_def)
      then show ?thesis using timerInv_arm [OF inv1 idle] by simp
    qed
  qed
qed

lemma timerInv_refreshSession: "timerInv m \<Longrightarrow> timerInv (snd (refreshSession now sid m))"
proof -
  assume inv: "timerInv m"
  show ?thesis
  proof (cases "getSession sid m")
    case None
    then show ?thesis using inv by (simp add: refreshSession_def)
  next
    case (Some s)
    show ?thesis
    proof (cases "status s = Active")
      case False
      then show ?thesis using inv Some by (simp add: refreshSession_def)
    next
      case True
      show ?thesis
      proof (cases "timeoutId s")
        case None
        have "timerInv (putSession sid (s\<lparr>lastActive := now\<rparr>) m)"
          using inv Some by (simp add: timerInv_putSession_same)
        then show ?thesis using Some True None
          by (simp add: refreshSession_def Let_def timerInv_scheduleCleanup)
      next
        case (Some h)
        have "timerInv (putSession sid (s\<lparr>lastActive := now, timeoutId := None\<rparr>) (clearTimeout h m))"
          using inv \<open>getSession sid m = Some s\<close> Some
          by (simp add: timerInv_putSession_idle timerInv_clearTimeout liveTimers_cleared)
        then show ?thesis using \<open>getSession sid m = Some s\<close> True Some
          by (simp add: refreshSession_def Let_def timerInv_scheduleCleanup)
      qed
    qed
  qed
qed

lemma timerInv_createSession:
  "timerInv m \<Longrightarrow> getSession uuid m = None \<Longrightarrow> timerInv (snd (createSession uuid now m))"
  by (simp add: createSession_def timerInv_putSession_idle liveTimers_absent)

lemma timerInv_markSessionForDeletion:
  "timerInv m \<Longrightarrow> timerInv (snd (markSessionForDeletion sid m))"
  by (auto simp: markSessionForDeletion_def timerInv_putSession_same split: option.splits)

lemma timerInv_setThreadId: "timerInv m \<Longrightarrow> timerInv (setThreadId sid tid m)"
  by (auto simp: setThreadId_def timerInv_putSession_same split: option.splits)

lemma timerInv_drop:
  "timerInv m \<Longrightarrow> liveTimers sid m = []
   \<Longrightarrow> timerInv (m\<lparr>sessions := AList.delete sid (sessions m)\<rparr>)"
  by (auto simp: timerInv_def getSession_delete liveTimers_empty_iff)

lemma timerInv_deleteSession: "timerInv m \<Longrightarrow> timerInv (deleteSession sid m)"
proof -
  assume inv: "timerInv m"
  define m1 where "m1 = (case getSession sid m of
                  None \<Rightarrow> m
                | Some s \<Rightarrow> (case timeoutId s of Some h \<Rightarrow> clearTimeout h m | None \<Rightarrow> m))"
  have inv1: "timerInv m1"
    using inv by (simp add: m1_def timerInv_clearTimeout split: option.splits)
  have idle: "liveTimers sid m1 = []"
    using inv by (auto simp: m1_def liveTimers_absent liveTimers_unarmed liveTimers_cleared split: option.splits)
  have "deleteSession sid m = m1\<lparr>sessions := AList.delete sid (sessions m1)\<rparr>"
    by (simp add: deleteSession_def m1_def Let_def)
  then show ?thesis using timerInv_drop [OF inv1 idle] by simp
qed

lemma timerInv_cleanupSessionBegin:
  "timerInv m \<Longrightarrow> timerInv (snd (cleanupSessionBegin sid m))"
proof -
  assume inv: "timerInv m"
  show ?thesis
  proof (cases "getSession sid m")
    case None
    then show ?thesis using inv by (simp add: cleanupSessionBegin_def)
  next
    case (Some s)
    then have mk: "markSessionForDeletion sid m = (True, putSession sid (s\<lparr>status := PendingDeletion\<rparr>) m)"
      by (simp add: markSessionForDeletion_def)
    have "timerInv (putSession sid (s\<lparr>status := PendingDeletion\<rparr>) m)"
      using inv Some by (simp add: timerInv_putSession_same)
    then show ?thesis using Some mk
      by (simp add: cleanupSessionBegin_def timerInv_deleteSession)
  qed
qed

lemma timerInv_cleanupSessionResume:
  "timerInv m \<Longrightarrow> timerInv (snd (cleanupSessionResume sid r m))"
  by (cases r) (simp_all add: cleanupSessionResume_def timerInv_deleteSession)

lemma timerInv_cleanupSession: "timerInv m \<Longrightarrow> timerInv (snd (cleanupSession r sid m))"
proof -
  assume inv: "timerInv m"
  obtain b m1 where b: "cleanupSessionBegin sid m = (b, m1)"
    by (cases "cleanupSessionBegin sid m")
  with timerInv_cleanupSessionBegin [OF inv, of sid] have "timerInv m1" by simp
  then show ?thesis using b
    by (cases b) (simp_all add: cleanupSession_def timerInv_cleanupSessionResume)
qed

lemma timerInv_fireTimer: "timerInv m \<Longrightarrow> timerInv (snd (fireTimer r h m))"
  by (simp add: fireTimer_def timerInv_cleanupSession timerInv_clearTimeout split: option.splits)

lemma timerInv_step:
  "timerInv m \<Longrightarrow> (case x of Create uuid now \<Rightarrow> getSession uuid m = None | _ \<Rightarrow> True)
   \<Longrightarrow> timerInv (step x m)"
  by (cases x) (simp_all add: timerInv_createSession timerInv_refreshSession
        timerInv_scheduleCleanup timerInv_markSessionForDeletion timerInv_deleteSession
        timerInv_setThreadId timerInv_fireTimer timerInv_cleanupSession)

lemma timerInv_run: "timerInv m \<Longrightarrow> uuidFresh xs m \<Longrightarrow> timerInv (run xs m)"
proof (induction xs arbitrary: m)
  case Nil
  then show ?case by simp
next
  case (Cons x xs)
  from Cons.prems have "timerInv (step x m)"
    by (intro timerInv_step) simp_all
  moreover from Cons.prems have "uuidFresh xs (step x m)" by simp
  ultimately show ?case using Cons.IH by simp
qed

lemma timerInv_emptyManager: "timerInv emptyManager"
  by (simp add: timerInv_def emptyManager_def)

lemma distinct_all_equal:
  "distinct xs \<Longrightarrow> (\<And>x y. x \<in> set xs \<Longrightarrow> y \<in> set xs \<Longrightarrow> x = y) \<Longrightarrow> length xs \<le> 1"
proof (cases xs)
  case Nil
  then show ?thesis by simp
next
  case (Cons a ys)
  assume d: "distinct xs" and eq: "\<And>x y. x \<in> set xs \<Longrightarrow> y \<in> set xs \<Longrightarrow> x = y"
  have "ys = []"
  proof (cases ys)
    case Nil
    then show ?thesis .
  next
    case (Cons b zs)
    have "a = b" by (rule eq) (simp_all add: \<open>xs = a # ys\<close> Cons)
    moreover have "a \<noteq> b" using d by (simp add: \<open>xs = a # ys\<close> Cons)
    ultimately show ?thesis by simp
  qed
  then show ?thesis by (simp add: Cons)
qed

lemma liveTimers_owned:
  assumes "timerInv m" and "h \<in> set (liveTimers sid m)"
  shows "\<exists>s. getSession sid m = Some s \<and> timeoutId s = Some h"
proof -
  from assms(2) obtain p where p: "p \<in> set (timers m)" "snd p = sid" "fst p = h"
    by (auto simp: liveTimers_def)
  from assms(1) p(1) have "\<exists>s. getSession (snd p) m = Some s \<and> timeoutId s = Some (fst p)"
    unfolding timerInv_def by blast
  then show ?thesis by (simp add: p)
qed

lemma timerInv_at_most_one: "timerInv m \<Longrightarrow> length (liveTimers sid m) \<le> 1"
proof (rule distinct_all_equal)
  assume inv: "timerInv m"
  show "distinct (liveTimers sid m)"
    using inv by (simp add: timerInv_def liveTimers_def distinct_map_filter)
  fix h h'
  assume "h \<in> set (liveTimers sid m)" "h' \<in> set (liveTimers sid m)"
  then show "h = h'"
    using liveTimers_owned [OF inv, of h sid] liveTimers_owned [OF inv, of h' sid] by auto
qed


lemma liveTimers_armed:
  "liveTimers sid m = []
   \<Longrightarrow> liveTimers sid (putSession sid s (snd (setTimeout sid m))) = [nextTimer m]"
  by (simp add: liveTimers_def setTimeout_def)

lemma nextTimer_clearTimeout [simp]: "nextTimer (clearTimeout h m) = nextTimer m"
  by (simp add: clearTimeout_def)

lemma liveTimers_scheduleCleanup:
  assumes inv: "timerInv m" and act: "hasSession sid m"
  shows "liveTimers sid (scheduleCleanup sid m) = [nextTimer m]"
proof -
  from act obtain s where s: "getSession sid m = Some s" "status s = Active"
    by (auto simp: hasSession_def split: option.splits)
  define m1 where "m1 = (case timeoutId s of Some h \<Rightarrow> clearTimeout h m | None \<Rightarrow> m)"
  have idle: "liveTimers sid m1 = []"
    using inv s(1) by (auto simp: m1_def liveTimers_unarmed liveTimers_cleared split: option.splits)
  have n: "nextTimer m1 = nextTimer m"
    by (simp add: m1_def split: option.splits)
  have "scheduleCleanup sid m =
          putSession sid (s\<lparr>timeoutId := Some (nextTimer m1)\<rparr>) (snd (setTimeout sid m1))"
    using s by (simp add: scheduleCleanup_def m1_def setTimeout_def Let_def)
  then show ?thesis using liveTimers_armed [OF idle] n by simp
qed

lemma refreshSession_active:
  assumes "getSession sid m = Some s" "status s = Active"
  shows "snd (refreshSession now sid m) =
           scheduleCleanup sid
             (putSession sid (s\<lparr>lastActive := now, timeoutId := None\<rparr>)
                (case timeoutId s of Some h \<Rightarrow> clearTimeout h m | None \<Rightarrow> m))"
proof (cases "timeoutId s")
  case None
  then have eq: "s\<lparr>lastActive := now, timeoutId := None\<rparr> = s\<lparr>lastActive := now\<rparr>"
    by (cases s) simp
  show ?thesis using assms None by (simp add: refreshSession_def Let_def eq)
next
  case (Some h)
  then show ?thesis using assms by (simp add: refreshSession_def Let_def)
qed

lemma liveTimers_refreshSession:
  assumes inv: "timerInv m" and act: "hasSession sid m"
  shows "liveTimers sid (snd (refreshSession now sid m)) = [nextTimer m]"
proof -
  from act obtain s where s: "getSession sid m = Some s" "status s = Active"
    by (auto simp: hasSession_def split: option.splits)
  define m1 where "m1 = (case timeoutId s of Some h \<Rightarrow> clearTimeout h m | None \<Rightarrow> m)"
  define m2 where "m2 = putSession sid (s\<lparr>lastActive := now, timeoutId := None\<rparr>) m1"
  have inv1: "timerInv m1"
    using inv by (simp add: m1_def timerInv_clearTimeout split: option.splits)
  have idle: "liveTimers sid m1 = []"
    using inv s(1) by (auto simp: m1_def liveTimers_unarmed liveTimers_cleared split: option.splits)
  have inv2: "timerInv m2"
    unfolding m2_def using inv1 idle by (rule timerInv_putSession_idle)
  have act2: "hasSession sid m2"
    using s(2) by (simp add: m2_def hasSession_def getSession_putSession)
  have n: "nextTimer m2 = nextTimer m"
    by (simp add: m2_def m1_def split: option.splits)
  have "snd (refreshSession now sid m) = scheduleCleanup sid m2"
    using refreshSession_active [OF s] by (simp add: m2_def m1_def)
  then show ?thesis using liveTimers_scheduleCleanup [OF inv2 act2] n by simp
qed

lemma liveTimers_clearTimeout_subset:
  "set (liveTimers sid (clearTimeout h m)) \<subseteq> set (liveTimers sid m)"
  by (auto simp: liveTimers_def clearTimeout_def)

lemma liveTimers_sessions_update [simp]:
  "liveTimers sid (m\<lparr>sessions := xs\<rparr>) = liveTimers sid m"
  by (simp add: liveTimers_def)

lemma liveTimers_deleteSession_subset:
  "set (liveTimers sid (deleteSession sid' m)) \<subseteq> set (liveTimers sid m)"
  using liveTimers_clearTimeout_subset
  by (simp add: deleteSession_def Let_def split: option.splits)

lemma liveTimers_markSessionForDeletion:
  "liveTimers sid (snd (markSessionForDeletion sid' m)) = liveTimers sid m"
  by (simp add: markSessionForDeletion_def split: option.splits)

lemma liveTimers_setThreadId: "liveTimers sid (setThreadId sid' tid m) = liveTimers sid m"
  by (simp add: setThreadId_def split: option.splits)

lemma liveTimers_createSession:
  "liveTimers sid (snd (createSession uuid now m)) = liveTimers sid m"
  by (simp add: createSession_def)

lemma liveTimers_setTimeout_other:
  "sid \<noteq> sid' \<Longrightarrow> liveTimers sid (snd (setTimeout sid' m)) = liveTimers sid m"
  by (simp add: liveTimers_def setTimeout_def)

lemma scheduleCleanup_inactive: "\<not> hasSession sid m \<Longrightarrow> scheduleCleanup sid m = m"
  by (auto simp: scheduleCleanup_def hasSession_def split: option.splits)

lemma liveTimers_scheduleCleanup_other:
  assumes "sid \<noteq> sid'"
  shows "set (liveTimers sid (scheduleCleanup sid' m)) \<subseteq> set (liveTimers sid m)"
proof (cases "hasSession sid' m")
  case False
  then show ?thesis by (simp add: scheduleCleanup_inactive)
next
  case True
  then obtain s where s: "getSession sid' m = Some s" "status s = Active"
    by (auto simp: hasSession_def split: option.splits)
  define m1 where "m1 = (case timeoutId s of Some h \<Rightarrow> clearTimeout h m | None \<Rightarrow> m)"
  have sub: "set (liveTimers sid m1) \<subseteq> set (liveTimers sid m)"
    using liveTimers_clearTimeout_subset by (simp add: m1_def split: option.splits)
  have "scheduleCleanup sid' m =
          putSession sid' (s\<lparr>timeoutId := Some (nextTimer m1)\<rparr>) (snd (setTimeout sid' m1))"
    using s by (simp add: scheduleCleanup_def m1_def setTimeout_def Let_def)
  then show ?thesis using sub assms by (simp add: liveTimers_setTimeout_other)
qed

lemma refreshSession_inactive: "\<not> hasSession sid m \<Longrightarrow> refreshSession now sid m = (None, m)"
  by (auto simp: refreshSession_def hasSession_def split: option.splits)

lemma liveTimers_refreshSession_other:
  assumes "sid \<noteq> sid'"
  shows "set (liveTimers sid (snd (refreshSession now sid' m))) \<subseteq> set (liveTimers sid m)"
proof (cases "hasSession sid' m")
  case False
  then show ?thesis by (simp add: refreshSession_inactive)
next
  case True
  then obtain s where s: "getSession sid' m = Some s" "status s = Active"
    by (auto simp: hasSession_def split: option.splits)
  define m1 where "m1 = (case timeoutId s of Some h \<Rightarrow> clearTimeout h m | None \<Rightarrow> m)"
  define m2 where "m2 = putSession sid' (s\<lparr>lastActive := now, timeoutId := None\<rparr>) m1"
  have sub: "set (liveTimers sid m2) \<subseteq> set (liveTimers sid m)"
    using liveTimers_clearTimeout_subset by (simp add: m2_def m1_def split: option.splits)
  have "snd (refreshSession now sid' m) = scheduleCleanup sid' m2"
    using refreshSession_active [OF s] by (simp add: m2_def m1_def)
  then show ?thesis using liveTimers_scheduleCleanup_other [OF assms, of m2] sub by auto
qed

lemma liveTimers_cleanupSession_subset:
  "set (liveTimers sid (snd (cleanupSession r sid' m))) \<subseteq> set (liveTimers sid m)"
proof (cases "getSession sid' m")
  case None
  then show ?thesis by (simp add: cleanupSession_def cleanupSessionBegin_def)
next
  case (Some s)
  let ?m1 = "putSession sid' (s\<lparr>status := PendingDeletion\<rparr>) m"
  have mk: "markSessionForDeletion sid' m = (True, ?m1)"
    using Some by (simp add: markSessionForDeletion_def)
  have del: "set (liveTimers sid (deleteSession sid' ?m1)) \<subseteq> set (liveTimers sid m)"
    using liveTimers_deleteSession_subset [of sid sid' ?m1] by simp
  show ?thesis
  proof (cases "truthy (threadId s)")
    case False
    then show ?thesis using Some mk del
      by (simp add: cleanupSession_def cleanupSessionBegin_def)
  next
    case True
    then have "cleanupSession r sid' m = cleanupSessionResume sid' r ?m1"
      using Some mk by (simp add: cleanupSession_def cleanupSessionBegin_def)
    then show ?thesis using del
      by (cases r) (simp_all add: cleanupSessionResume_def)
  qed
qed

lemma liveTimers_fireTimer_subset:
  "set (liveTimers sid (snd (fireTimer r h m))) \<subseteq> set (liveTimers sid m)"
proof (cases "map_of (timers m) h")
  case None
  then show ?thesis by (simp add: fireTimer_def)
next
  case (Some sid')
  then show ?thesis
    using liveTimers_cleanupSession_subset [of sid r sid' "clearTimeout h m"]
      liveTimers_clearTimeout_subset [of sid h m]
    by (simp add: fireTimer_def)
qed

lemma liveTimers_step_inactive:
  assumes "\<not> hasSession sid m"
  shows "set (liveTimers sid (step x m)) \<subseteq> set (liveTimers sid m)"
proof (cases x)
  case (Create uuid now)
  then show ?thesis by (simp add: liveTimers_createSession)
next
  case (Refresh sid' now)
  show ?thesis
  proof (cases "sid = sid'")
    case True
    then show ?thesis using assms Refresh by (simp add: refreshSession_inactive)
  next
    case False
    then show ?thesis using Refresh by (simp add: liveTimers_refreshSession_other)
  qed
next
  case (Schedule sid')
  show ?thesis
  proof (cases "sid = sid'")
    case True
    then show ?thesis using assms Schedule by (simp add: scheduleCleanup_inactive)
  next
    case False
    then show ?thesis using Schedule by (simp add: liveTimers_scheduleCleanup_other)
  qed
next
  case (Mark sid')
  then show ?thesis by (simp add: liveTimers_markSessionForDeletion)
next
  case (Delete sid')
  then show ?thesis by (simp add: liveTimers_deleteSession_subset)
next
  case (SetThread sid' tid)
  then show ?thesis by (simp add: liveTimers_setThreadId)
next
  case (Fire h r)
  then show ?thesis by (simp add: liveTimers_fireTimer_subset)
next
  case (Cleanup sid' r)
  then show ?thesis by (simp add: liveTimers_cleanupSession_subset)
qed

lemma liveTimers_deleteSession:
  assumes inv: "timerInv m"
  shows "liveTimers sid (deleteSession sid m) = []"
proof -
  define m1 where "m1 = (case getSession sid m of
                  None \<Rightarrow> m
                | Some s \<Rightarrow> (case timeoutId s of Some h \<Rightarrow> clearTimeout h m | None \<Rightarrow> m))"
  have idle: "liveTimers sid m1 = []"
    using inv by (auto simp: m1_def liveTimers_absent liveTimers_unarmed liveTimers_cleared split: option.splits)
  have "deleteSession sid m = m1\<lparr>sessions := AList.delete sid (sessions m1)\<rparr>"
    by (simp add: deleteSession_def m1_def Let_def)
  then show ?thesis using idle by simp
qed

lemma getSession_deleteSession:
  "getSession k (deleteSession sid m) = (if k = sid then None else getSession k m)"
  by (simp add: deleteSession_def Let_def getSession_def delete_conv' clearTimeout_def
        split: option.splits)

lemma cleanupSession_thread:
  assumes "getSession sid m = Some s" and "truthy (threadId s)"
  shows "cleanupSession r sid m =
           cleanupSessionResume sid r (putSession sid (s\<lparr>status := PendingDeletion\<rparr>) m)"
  using assms by (simp add: cleanupSession_def cleanupSessionBegin_def markSessionForDeletion_def)

lemma cleanupSession_no_thread:
  assumes "getSession sid m = Some s" and "\<not> truthy (threadId s)"
  shows "cleanupSession r sid m =
           ([], deleteSession sid (putSession sid (s\<lparr>status := PendingDeletion\<rparr>) m))"
  using assms by (simp add: cleanupSession_def cleanupSessionBegin_def markSessionForDeletion_def)

lemma cleanupSession_absent:
  "getSession sid m = None \<Longrightarrow> cleanupSession r sid m = ([], m)"
  by (simp add: cleanupSession_def cleanupSessionBegin_def)

lemma pending_in_getExpiredSessions:
  assumes "getSession sid m = Some s" and "status s = PendingDeletion"
  shows "sid \<in> set (getExpiredSessions now m)"
proof -
  from assms(1) have "(sid, s) \<in> set (sessions m)"
    by (simp add: getSession_def map_of_SomeD)
  moreover have "isExpired now s"
    using assms(2) by (simp add: isExpired_def)
  ultimately show ?thesis
    by (force simp: getExpiredSessions_def expiredLoop_filter)
qed

section \<open>Properties of the sweep\<close>

lemma getSession_cleanupSession_other:
  assumes "k \<noteq> sid"
  shows "getSession k (snd (cleanupSession r sid m)) = getSession k m"
proof (cases "getSession sid m")
  case None
  then show ?thesis by (simp add: cleanupSession_absent)
next
  case (Some s)
  show ?thesis
  proof (cases "truthy (threadId s)")
    case False
    then show ?thesis using Some assms
      by (simp add: cleanupSession_no_thread getSession_deleteSession getSession_putSession)
  next
    case True
    show ?thesis
      unfolding cleanupSession_thread [OF Some True] using assms
      by (cases r)
        (simp_all add: cleanupSessionResume_def getSession_deleteSession getSession_putSession)
  qed
qed

lemma getSession_cleanupSession_absent:
  assumes "getSession k m = None"
  shows "getSession k (snd (cleanupSession r sid m)) = None"
proof (cases "k = sid")
  case True
  then show ?thesis using assms by (simp add: cleanupSession_absent)
next
  case False
  then show ?thesis using assms by (simp add: getSession_cleanupSession_other)
qed

lemma cleanupLoop_Cons:
  "cleanupLoop del (x # xs) (evs, m) =
     cleanupLoop del xs (evs @ fst (cleanupSession (del x) x m), snd (cleanupSession (del x) x m))"
  by (simp add: split_def Let_def)

lemma cleanupLoop_absent:
  "getSession k m = None \<Longrightarrow> getSession k (snd (cleanupLoop del xs (evs, m))) = None"
proof (induction xs arbitrary: evs m)
  case Nil
  then show ?case by simp
next
  case (Cons x xs)
  show ?case
    unfolding cleanupLoop_Cons
    by (rule Cons.IH) (rule getSession_cleanupSession_absent [OF Cons.prems])
qed

lemma cleanupLoop_keeps_events:
  "set evs \<subseteq> set (fst (cleanupLoop del xs (evs, m)))"
proof (induction xs arbitrary: evs m)
  case Nil
  then show ?case by simp
next
  case (Cons x xs)
  have "set evs \<subseteq> set (evs @ fst (cleanupSession (del x) x m))" by simp
  also have "\<dots> \<subseteq> set (fst (cleanupLoop del (x # xs) (evs, m)))"
    unfolding cleanupLoop_Cons by (rule Cons.IH)
  finally show ?case .
qed

lemma cleanupSession_events:
  "fst (cleanupSession r sid m) = [] \<or> fst (cleanupSession r sid m) = [ClearChat sid]"
proof (cases "getSession sid m")
  case None
  then show ?thesis by (simp add: cleanupSession_absent)
next
  case (Some s)
  show ?thesis
  proof (cases "truthy (threadId s)")
    case False
    then show ?thesis using Some by (simp add: cleanupSession_no_thread)
  next
    case True
    show ?thesis
      unfolding cleanupSession_thread [OF Some True]
      by (cases r) (simp_all add: cleanupSessionResume_def)
  qed
qed

lemma cleanupLoop_only_clear_chat:
  "e \<in> set (fst (cleanupLoop del xs (evs, m))) \<Longrightarrow> e \<in> set evs \<or> (\<exists>k. e = ClearChat k)"
proof (induction xs arbitrary: evs m)
  case Nil
  then show ?case by simp
next
  case (Cons x xs)
  from Cons.prems have "e \<in> set (evs @ fst (cleanupSession (del x) x m)) \<or> (\<exists>k. e = ClearChat k)"
    unfolding cleanupLoop_Cons by (rule Cons.IH)
  then show ?case using cleanupSession_events [of "del x" x m] by auto
qed

lemma cleanupLoop_other:
  "sid \<notin> set xs \<Longrightarrow> getSession sid (snd (cleanupLoop del xs (evs, m))) = getSession sid m"
proof (induction xs arbitrary: evs m)
  case Nil
  then show ?case by simp
next
  case (Cons x xs)
  from Cons.prems have ne: "sid \<noteq> x" and rest: "sid \<notin> set xs" by auto
  show ?case
    unfolding cleanupLoop_Cons
    by (simp only: Cons.IH [OF rest] getSession_cleanupSession_other [OF ne])
qed

lemma cleanupLoop_removes:
  assumes "sid \<in> set xs" and "getSession sid m = Some s" and "truthy (threadId s)"
    and "del sid = Deleted \<or> del sid = DelError (Some 404)"
  shows "getSession sid (snd (cleanupLoop del xs (evs, m))) = None"
  using assms(1,2)
proof (induction xs arbitrary: evs m)
  case Nil
  then show ?case by simp
next
  case (Cons x xs)
  show ?case
  proof (cases "x = sid")
    case True
    have "getSession sid (snd (cleanupSession (del sid) sid m)) = None"
      unfolding cleanupSession_thread [OF Cons.prems(2) assms(3)] using assms(4)
      by (auto simp: cleanupSessionResume_def getSession_deleteSession)
    then show ?thesis
      unfolding cleanupLoop_Cons True by (rule cleanupLoop_absent)
  next
    case False
    then have ne: "sid \<noteq> x" by simp
    with Cons.prems(1) have mem: "sid \<in> set xs" by simp
    have g: "getSession sid (snd (cleanupSession (del x) x m)) = Some s"
      using Cons.prems(2) by (simp add: getSession_cleanupSession_other [OF ne])
    show ?thesis
      unfolding cleanupLoop_Cons by (rule Cons.IH [OF mem g])
  qed
qed

lemma cleanupLoop_broadcasts:
  assumes "sid \<in> set xs" and "getSession sid m = Some s" and "truthy (threadId s)"
    and "del sid = Deleted"
  shows "ClearChat sid \<in> set (fst (cleanupLoop del xs (evs, m)))"
  using assms(1,2)
proof (induction xs arbitrary: evs m)
  case Nil
  then show ?case by simp
next
  case (Cons x xs)
  show ?case
  proof (cases "x = sid")
    case True
    have "fst (cleanupSession (del sid) sid m) = [ClearChat sid]"
      unfolding cleanupSession_thread [OF Cons.prems(2) assms(3)] using assms(4)
      by (simp add: cleanupSessionResume_def)
    then have "ClearChat sid \<in> set (evs @ fst (cleanupSession (del sid) sid m))" by simp
    then show ?thesis
      unfolding cleanupLoop_Cons True using cleanupLoop_keeps_events by blast
  next
    case False
    then have ne: "sid \<noteq> x" by simp
    with Cons.prems(1) have mem: "sid \<in> set xs" by simp
    have g: "getSession sid (snd (cleanupSession (del x) x m)) = Some s"
      using Cons.prems(2) by (simp add: getSession_cleanupSession_other [OF ne])
    show ?thesis
      unfolding cleanupLoop_Cons by (rule Cons.IH [OF mem g])
  qed
qed

lemma cleanupLoop_still_pending:
  assumes "getSession sid m = Some s" and "truthy (threadId s)" and "status s = PendingDeletion"
    and "del sid = DelError st'" and "st' \<noteq> Some 404"
  shows "getSession sid (snd (cleanupLoop del xs (evs, m))) = Some s"
  using assms(1)
proof (induction xs arbitrary: evs m)
  case Nil
  then show ?case by simp
next
  case (Cons x xs)
  have same: "s\<lparr>status := PendingDeletion\<rparr> = s"
    using assms(3) by (cases s) simp
  have g: "getSession sid (snd (cleanupSession (del x) x m)) = Some s"
  proof (cases "x = sid")
    case True
    show ?thesis
      unfolding True cleanupSession_thread [OF Cons.prems assms(2)] using assms(4,5)
      by (simp add: cleanupSessionResume_def getSession_putSession same)
  next
    case False
    then have "sid \<noteq> x" by simp
    then show ?thesis using Cons.prems by (simp add: getSession_cleanupSession_other)
  qed
  show ?case
    unfolding cleanupLoop_Cons by (rule Cons.IH [OF g])
qed

lemma cleanupSessionBegin_pending:
  "getSession sid m = Some s \<Longrightarrow> truthy (threadId s) \<Longrightarrow> fst (cleanupSessionBegin sid m) = True"
  by (simp add: cleanupSessionBegin_def markSessionForDeletion_def)

section \<open>Properties of a prompt turn\<close>

lemma streamEvents_append:
  "streamEvents api sid p (xs @ ys) tm = streamEvents api sid p ys (streamEvents api sid p xs tm)"
  by (induction xs arbitrary: tm) simp_all

lemma streamEvents_text:
  assumes "StreamError \<notin> set pre" and "StreamEnd \<notin> set pre"
  shows "\<exists>t' new. streamEvents api sid p pre (t, m) = (t', m)
            \<and> generateCalls t' = generateCalls t
            \<and> emitted t' = emitted t @ new \<and> (\<forall>e \<in> set new. isTextEvent e)"
  using assms
proof (induction pre arbitrary: t)
  case Nil
  then show ?case by simp
next
  case (Cons ev pre)
  obtain t1 where t1: "onStreamEvent api sid p ev (t, m) = (t1, m)"
      "generateCalls t1 = generateCalls t" "\<exists>e. emitted t1 = emitted t @ [e] \<and> isTextEvent e"
    using Cons.prems by (cases ev) (simp_all add: emit_def isTextEvent_def)
  from t1(3) obtain e where e: "emitted t1 = emitted t @ [e]" "isTextEvent e" by blast
  from Cons.IH [of t1] Cons.prems obtain t' new where
    r: "streamEvents api sid p pre (t1, m) = (t', m)" "generateCalls t' = generateCalls t1"
       "emitted t' = emitted t1 @ new" "\<forall>e \<in> set new. isTextEvent e"
    by auto
  have "emitted t' = emitted t @ (e # new)" using r(3) e(1) by simp
  moreover have "\<forall>x \<in> set (e # new). isTextEvent x" using r(4) e(2) by simp
  ultimately show ?case using r(1,2) t1(1,2) by (simp del: onStreamEvent.simps)
qed

lemma hasSession_put_status:
  "getSession sid m = Some s \<Longrightarrow> status s' = status s
   \<Longrightarrow> hasSession k (putSession sid s' m) = hasSession k m"
  by (simp add: hasSession_def getSession_putSession)

lemma hasSession_scheduleCleanup: "hasSession k (scheduleCleanup sid m) = hasSession k m"
proof (cases "hasSession sid m")
  case False
  then show ?thesis by (simp add: scheduleCleanup_inactive)
next
  case True
  then obtain s where s: "getSession sid m = Some s" "status s = Active"
    by (auto simp: hasSession_def split: option.splits)
  define m1 where "m1 = (case timeoutId s of Some h \<Rightarrow> clearTimeout h m | None \<Rightarrow> m)"
  have g: "getSession k (snd (setTimeout sid m1)) = getSession k m" for k
    by (simp add: m1_def split: option.splits)
  have "scheduleCleanup sid m =
          putSession sid (s\<lparr>timeoutId := Some (nextTimer m1)\<rparr>) (snd (setTimeout sid m1))"
    using s by (simp add: scheduleCleanup_def m1_def setTimeout_def Let_def)
  then show ?thesis using s g by (simp add: hasSession_def getSession_putSession)
qed

text \<open>What \<open>handlePrompt\<close> comes to when every step before the stream succeeds.\<close>

lemma handlePrompt_streams:
  assumes "getSession sid m = Some s" "status s = Active" "retrieveAssistant b"
    "truthy (threadId s) \<or> threadsCreate b \<noteq> None" "messagesCreate b"
    "runsStream b = Some events"
  shows "\<exists>m1. handlePrompt b sid prompt m = streamEvents (completion b) sid prompt events (newTurn, m1)
            \<and> hasSession sid m1"
proof (cases "truthy (threadId s)")
  case True
  then have "handlePrompt b sid prompt m = streamEvents (completion b) sid prompt events (newTurn, m)"
    using assms by (simp add: handlePrompt_def)
  moreover have "hasSession sid m" using assms(1,2) by (simp add: hasSession_def)
  ultimately show ?thesis by blast
next
  case False
  let ?m1 = "putSession sid (s\<lparr>threadId := threadsCreate b\<rparr>) m"
  have "handlePrompt b sid prompt m = streamEvents (completion b) sid prompt events (newTurn, ?m1)"
    using assms False by (auto simp: handlePrompt_def)
  moreover have "hasSession sid ?m1"
    using assms(2) by (simp add: hasSession_def getSession_putSession)
  ultimately show ?thesis by blast
qed




section \<open>Properties of marking and resuming\<close>

text \<open>
  \<open>markSessionForDeletion\<close> answers whether the session exists, whatever its status.
  After a successful \<open>hasSession\<close>, \<open>refreshSession\<close> returns the session, so
  \<open>resume_session\<close> never emits \<open>session_created\<close> with an \<open>info\<close> field.
\<close>

lemma markSessionForDeletion_result:
  "fst (markSessionForDeletion sid m) = (getSession sid m \<noteq> None)"
  by (simp add: markSessionForDeletion_def split: option.splits)

lemma markSessionForDeletion_again:
  "getSession sid m \<noteq> None
   \<Longrightarrow> fst (markSessionForDeletion sid (snd (markSessionForDeletion sid m))) = True"
  by (auto simp: markSessionForDeletion_def getSession_putSession split: option.splits)

lemma refreshSession_after_hasSession:
  assumes "hasSession sid m"
  shows "fst (refreshSession now sid m) \<noteq> None"
proof -
  from assms obtain s where s: "getSession sid m = Some s" "status s = Active"
    by (auto simp: hasSession_def split: option.splits)
  have "fst (refreshSession now sid m) = getSession sid (snd (refreshSession now sid m))"
    using s by (simp add: refreshSession_def Let_def split: option.splits)
  moreover have "hasSession sid (snd (refreshSession now sid m))"
  proof -
    let ?m2 = "putSession sid (s\<lparr>lastActive := now, timeoutId := None\<rparr>)
                 (case timeoutId s of Some h \<Rightarrow> clearTimeout h m | None \<Rightarrow> m)"
    have "hasSession sid ?m2"
      using s(2) by (simp add: hasSession_def getSession_putSession)
    then have "hasSession sid (scheduleCleanup sid ?m2)"
      by (simp only: hasSession_scheduleCleanup)
    then show ?thesis by (simp only: refreshSession_active [OF s])
  qed
  ultimately show ?thesis by (auto simp: hasSession_def split: option.splits)
qed

lemma resume_session_rejected:
  "\<not> (truthy d \<and> hasSession (the d) m)
   \<Longrightarrow> resume_session d uuid now m
       = (Some uuid, [SessionCreated uuid None], snd (createSession uuid now m))"
  by (auto simp: resume_session_def createSession_def)

lemma resume_session_never_info:
  "fst (snd (resume_session d uuid now m)) \<noteq> [SessionCreated uuid' (Some info)]"
proof (cases "truthy d \<and> hasSession (the d) m")
  case False
  then show ?thesis by (simp add: resume_session_rejected)
next
  case True
  then obtain s where "fst (refreshSession now (the d) m) = Some s"
    using refreshSession_after_hasSession [of "the d" m now] by auto
  then show ?thesis using True
    by (auto simp: resume_session_def Let_def split: prod.splits)
qed

text \<open>The definitions that evaluate a run on concrete calls.\<close>

lemmas run_eval = createSession_def refreshSession_def markSessionForDeletion_def
  scheduleCleanup_def setTimeout_def clearTimeout_def putSession_def getSession_def
  emptyManager_def deleteSession_def setThreadId_def cleanupSession_def cleanupSessionBegin_def
  cleanupSessionResume_def truthy_def fireTimer_def hasSession_def liveTimers_def

section \<open>Claims about the registry\<close>

text \<open>
  C1. \<open>markSessionForDeletion\<close> called twice in succession on a session was to return
  \<open>true\<close> and then \<open>false\<close>. The function tests only that the session exists, not its
  status: on a session just created, both calls return \<open>true\<close>.
\<close>

theorem markSessionForDeletion_twice_true:
  "fst (markSessionForDeletion ''s1'' (snd (createSession ''s1'' 0 emptyManager))) = True
   \<and> fst (markSessionForDeletion ''s1''
          (snd (markSessionForDeletion ''s1'' (snd (createSession ''s1'' 0 emptyManager))))) = True
   \<and> fst (markSessionForDeletion ''s2'' (snd (createSession ''s1'' 0 emptyManager))) = False"
  by (simp add: markSessionForDeletion_def createSession_def emptyManager_def
        putSession_def getSession_def)

text \<open>
  C6. For a session id that is absent from the registry, or whose session is in
  \<open>PendingDeletion\<close>, \<open>refreshSession\<close> returns \<open>null\<close> and the whole manager state
  (sessions, timers) is as before.
\<close>

theorem refreshSession_rejected_unchanged:
  "getSession sid m = None \<or> (\<exists>s. getSession sid m = Some s \<and> status s = PendingDeletion)
   \<Longrightarrow> refreshSession now sid m = (None, m)"
  by (auto simp: refreshSession_def)

theorem refreshSession_rejected_unchanged_witness:
  "refreshSession 9 ''gone'' (run [Create ''s1'' 0, Refresh ''s1'' 1, Mark ''s1''] emptyManager)
     = (None, run [Create ''s1'' 0, Refresh ''s1'' 1, Mark ''s1''] emptyManager)
   \<and> refreshSession 9 ''s1'' (run [Create ''s1'' 0, Refresh ''s1'' 1, Mark ''s1''] emptyManager)
     = (None, run [Create ''s1'' 0, Refresh ''s1'' 1, Mark ''s1''] emptyManager)"
proof -
  let ?m = "run [Create ''s1'' 0, Refresh ''s1'' 1, Mark ''s1''] emptyManager"
  have m: "?m = \<lparr>sessions = [(''s1'', \<lparr>threadId = None, lastActive = 1, timeoutId = Some 0,
                                    status = PendingDeletion\<rparr>)],
                  timers = [(0, ''s1'')], nextTimer = 1\<rparr>"
    by (simp add: createSession_def refreshSession_def markSessionForDeletion_def
          scheduleCleanup_def setTimeout_def putSession_def getSession_def emptyManager_def)
  have absent: "getSession ''gone'' ?m = None \<or>
                (\<exists>s. getSession ''gone'' ?m = Some s \<and> status s = PendingDeletion)"
    unfolding m by (simp add: getSession_def)
  have pending: "getSession ''s1'' ?m = None \<or>
                 (\<exists>s. getSession ''s1'' ?m = Some s \<and> status s = PendingDeletion)"
    unfolding m by (simp add: getSession_def)
  show ?thesis
    using refreshSession_rejected_unchanged [OF absent, of 9]
      refreshSession_rejected_unchanged [OF pending, of 9] by simp
qed

text \<open>
  C7. \<open>getExpiredSessions\<close> returns, in the Map's order, exactly the ids of the entries
  whose status is \<open>PendingDeletion\<close>, or whose status is \<open>Active\<close> with
  \<open>now - lastActive\<close> strictly above 1800000 ms (30 minutes); no other id is returned.
\<close>

theorem getExpiredSessions_exact:
  "getExpiredSessions now m =
     map fst (filter (\<lambda>p. status (snd p) = PendingDeletion
                          \<or> (status (snd p) = Active \<and> now - lastActive (snd p) > 1800000))
               (sessions m))"
  by (simp add: getExpiredSessions_def expiredLoop_filter isExpired_def SESSION_TIMEOUT_def
        conj_commute)

text \<open>
  C9. Along every sequence of registry calls (with \<open>uuidv4\<close> returning unused ids) a
  session has at most one live timer, and the two operations that arm a timer replace:
  after \<open>scheduleCleanup\<close> or \<open>refreshSession\<close> on an active session its only
  live timer is the new one.
\<close>

theorem one_live_timer_per_session:
  assumes "uuidFresh ops emptyManager" and "m = run ops emptyManager"
  shows "length (liveTimers sid m) \<le> 1
         \<and> (hasSession sid m \<longrightarrow> liveTimers sid (scheduleCleanup sid m) = [nextTimer m])
         \<and> (hasSession sid m \<longrightarrow> liveTimers sid (snd (refreshSession now sid m)) = [nextTimer m])"
proof -
  have inv: "timerInv m"
    using assms timerInv_run [OF timerInv_emptyManager] by simp
  show ?thesis
    using timerInv_at_most_one [OF inv, of sid] liveTimers_scheduleCleanup [OF inv, of sid]
      liveTimers_refreshSession [OF inv, of sid now] by blast
qed

theorem one_live_timer_per_session_witness:
  "uuidFresh [Create ''a'' 0, Refresh ''a'' 1, Create ''b'' 2, Schedule ''a'', Refresh ''b'' 3] emptyManager
   \<and> length (liveTimers ''a''
         (run [Create ''a'' 0, Refresh ''a'' 1, Create ''b'' 2, Schedule ''a'', Refresh ''b'' 3] emptyManager)) \<le> 1
   \<and> liveTimers ''a'' (scheduleCleanup ''a''
         (run [Create ''a'' 0, Refresh ''a'' 1, Create ''b'' 2, Schedule ''a'', Refresh ''b'' 3] emptyManager)) = [3]
   \<and> liveTimers ''a'' (snd (refreshSession 9 ''a''
         (run [Create ''a'' 0, Refresh ''a'' 1, Create ''b'' 2, Schedule ''a'', Refresh ''b'' 3] emptyManager))) = [3]"
proof -
  let ?ops = "[Create ''a'' 0, Refresh ''a'' 1, Create ''b'' 2, Schedule ''a'', Refresh ''b'' 3]"
  have fresh: "uuidFresh ?ops emptyManager"
    by (simp add: run_eval)
  have act: "hasSession ''a'' (run ?ops emptyManager)"
    by (simp add: run_eval)
  have n: "nextTimer (run ?ops emptyManager) = 3"
    by (simp add: run_eval)
  show ?thesis
    using one_live_timer_per_session [OF fresh refl, of "''a''" 9] fresh act n by simp
qed

text \<open>
  C2. A session holding a live timer was to be \<open>Active\<close> in every reachable state.
  \<open>markSessionForDeletion\<close> writes the status only and \<open>cleanupSession\<close> clears the
  timer only through \<open>deleteSession\<close>: after a prompt turn, a sweep whose remote deletion
  fails leaves the session in \<open>PendingDeletion\<close> with the timer armed at the end of the
  turn still live.
\<close>

theorem pending_session_keeps_live_timer:
  "uuidFresh [Create ''s'' 0, Refresh ''s'' 0, SetThread ''s'' ''t'', Schedule ''s'',
              Cleanup ''s'' (DelError (Some 500))] emptyManager
   \<and> getSession ''s'' (run [Create ''s'' 0, Refresh ''s'' 0, SetThread ''s'' ''t'', Schedule ''s'',
                             Cleanup ''s'' (DelError (Some 500))] emptyManager)
       = Some \<lparr>threadId = Some ''t'', lastActive = 0, timeoutId = Some 1, status = PendingDeletion\<rparr>
   \<and> timers (run [Create ''s'' 0, Refresh ''s'' 0, SetThread ''s'' ''t'', Schedule ''s'',
                   Cleanup ''s'' (DelError (Some 500))] emptyManager) = [(1, ''s'')]"
  by (simp add: run_eval)

text \<open>
  C2, as the code has it. In every reachable state a live timer of a session is the
  \<open>timeoutId\<close> of a session present in the registry; no call gives a session that is not
  \<open>Active\<close> a new live timer; \<open>markSessionForDeletion\<close> leaves the session's timer as it
  is, and \<open>deleteSession\<close> cancels it.
\<close>

theorem live_timer_owned_armed_when_active:
  assumes "uuidFresh ops emptyManager" and "m = run ops emptyManager"
  shows "(\<forall>h \<in> set (liveTimers sid m). \<exists>s. getSession sid m = Some s \<and> timeoutId s = Some h)
         \<and> (\<not> hasSession sid m \<longrightarrow> set (liveTimers sid (step x m)) \<subseteq> set (liveTimers sid m))
         \<and> liveTimers sid (snd (markSessionForDeletion sid m)) = liveTimers sid m
         \<and> liveTimers sid (deleteSession sid m) = []"
proof -
  have inv: "timerInv m"
    using assms timerInv_run [OF timerInv_emptyManager] by simp
  show ?thesis
    using liveTimers_owned [OF inv, of _ sid] liveTimers_step_inactive [of sid m x]
      liveTimers_markSessionForDeletion [of sid sid m] liveTimers_deleteSession [OF inv, of sid]
    by blast
qed

theorem live_timer_owned_armed_when_active_witness:
  "uuidFresh [Create ''s'' 0, Refresh ''s'' 0, Mark ''s''] emptyManager
   \<and> liveTimers ''s'' (run [Create ''s'' 0, Refresh ''s'' 0, Mark ''s''] emptyManager) = [0]
   \<and> (\<exists>s. getSession ''s'' (run [Create ''s'' 0, Refresh ''s'' 0, Mark ''s''] emptyManager) = Some s
            \<and> timeoutId s = Some 0)
   \<and> \<not> hasSession ''s'' (run [Create ''s'' 0, Refresh ''s'' 0, Mark ''s''] emptyManager)
   \<and> set (liveTimers ''s'' (step (Refresh ''s'' 7)
              (run [Create ''s'' 0, Refresh ''s'' 0, Mark ''s''] emptyManager))) \<subseteq> {0}
   \<and> liveTimers ''s'' (deleteSession ''s''
              (run [Create ''s'' 0, Refresh ''s'' 0, Mark ''s''] emptyManager)) = []"
proof -
  let ?ops = "[Create ''s'' 0, Refresh ''s'' 0, Mark ''s'']"
  have fresh: "uuidFresh ?ops emptyManager"
    by (simp add: run_eval)
  have live: "liveTimers ''s'' (run ?ops emptyManager) = [0]"
    by (simp add: run_eval)
  have inactive: "\<not> hasSession ''s'' (run ?ops emptyManager)"
    by (simp add: run_eval)
  show ?thesis
    using live_timer_owned_armed_when_active [OF fresh refl, of "''s''" "Refresh ''s'' 7"]
      fresh live inactive by simp
qed


section \<open>Claims about the chat service\<close>

text \<open>
  C3. A \<open>resume_session\<close> request with an id that is unknown, or whose session is not
  active, was to get a \<open>session_created\<close> event with the new id and an \<open>info\<close> field.
  Such a request fails the \<open>hasSession\<close> test and takes the outer \<open>else\<close>, which emits
  \<open>session_created\<close> with the id alone; the branch that adds \<open>info\<close> sits behind
  \<open>hasSession\<close> and a failed \<open>refreshSession\<close>, which cannot both happen.
\<close>

theorem resume_stale_session_created_without_info:
  "resume_session (Some ''stale'') ''new'' 7 emptyManager
     = (Some ''new'', [SessionCreated ''new'' None],
        \<lparr>sessions = [(''new'', \<lparr>threadId = None, lastActive = 7, timeoutId = None, status = Active\<rparr>)],
         timers = [], nextTimer = 0\<rparr>)
   \<and> fst (snd (resume_session (Some ''s'') ''new'' 7 (run [Create ''s'' 0, Mark ''s''] emptyManager)))
     = [SessionCreated ''new'' None]"
  by (simp add: resume_session_def run_eval)

text \<open>
  C8. When \<open>cleanupSession\<close> runs on a session with a thread and \<open>threads.del\<close> rejects:
  with status 404 the session is deleted from the Map; with any other error it stays in
  the Map, now \<open>PendingDeletion\<close>. The next \<open>cleanupExpiredSessions\<close> then takes it up
  again: it is in the result of \<open>getExpiredSessions\<close>, \<open>cleanupSession\<close> requests the
  deletion once more, and the sweep ends with the session deleted (and \<open>clear_chat\<close>
  sent) when the deletion resolves, deleted when it rejects with 404, and still pending
  otherwise. Neither the failed cleanup nor the sweep emits anything but \<open>clear_chat\<close>.
\<close>

theorem cleanupSession_remote_failure:
  assumes "getSession sid m = Some s" and "truthy (threadId s)"
    and "m' = snd (cleanupSession (DelError st) sid m)"
  shows "fst (cleanupSession (DelError st) sid m) = []
         \<and> (st = Some 404 \<longrightarrow> getSession sid m' = None)
         \<and> (st \<noteq> Some 404 \<longrightarrow>
              getSession sid m' = Some (s\<lparr>status := PendingDeletion\<rparr>)
              \<and> sid \<in> set (getExpiredSessions now m')
              \<and> fst (cleanupSessionBegin sid m') = True
              \<and> (del sid = Deleted \<longrightarrow>
                    ClearChat sid \<in> set (fst (cleanupExpiredSessions del now m'))
                    \<and> getSession sid (snd (cleanupExpiredSessions del now m')) = None)
              \<and> (del sid = DelError (Some 404) \<longrightarrow>
                    getSession sid (snd (cleanupExpiredSessions del now m')) = None)
              \<and> (\<forall>st'. del sid = DelError st' \<and> st' \<noteq> Some 404 \<longrightarrow>
                    getSession sid (snd (cleanupExpiredSessions del now m'))
                      = Some (s\<lparr>status := PendingDeletion\<rparr>)))
         \<and> (\<forall>e \<in> set (fst (cleanupExpiredSessions del now m')). \<exists>k. e = ClearChat k)"
proof -
  let ?m1 = "putSession sid (s\<lparr>status := PendingDeletion\<rparr>) m"
  let ?s1 = "s\<lparr>status := PendingDeletion\<rparr>"
  have c: "cleanupSession (DelError st) sid m = cleanupSessionResume sid (DelError st) ?m1"
    using assms(1,2) by (rule cleanupSession_thread)
  have quiet: "fst (cleanupSession (DelError st) sid m) = []"
    unfolding c by (simp add: cleanupSessionResume_def)
  have gone: "getSession sid m' = None" if "st = Some 404"
    unfolding assms(3) c using that by (simp add: cleanupSessionResume_def getSession_deleteSession)
  have only: "\<forall>e \<in> set (fst (cleanupExpiredSessions del now m')). \<exists>k. e = ClearChat k"
    using cleanupLoop_only_clear_chat [of _ del "getExpiredSessions now m'" "[]" m']
    by (auto simp: cleanupExpiredSessions_def)
  have retry: "getSession sid m' = Some ?s1
              \<and> sid \<in> set (getExpiredSessions now m')
              \<and> fst (cleanupSessionBegin sid m') = True
              \<and> (del sid = Deleted \<longrightarrow>
                    ClearChat sid \<in> set (fst (cleanupExpiredSessions del now m'))
                    \<and> getSession sid (snd (cleanupExpiredSessions del now m')) = None)
              \<and> (del sid = DelError (Some 404) \<longrightarrow>
                    getSession sid (snd (cleanupExpiredSessions del now m')) = None)
              \<and> (\<forall>st'. del sid = DelError st' \<and> st' \<noteq> Some 404 \<longrightarrow>
                    getSession sid (snd (cleanupExpiredSessions del now m')) = Some ?s1)"
    if other: "st \<noteq> Some 404"
  proof -
    have m': "m' = ?m1"
      unfolding assms(3) c using other by (simp add: cleanupSessionResume_def)
    have g: "getSession sid m' = Some ?s1"
      unfolding m' by (simp add: getSession_putSession)
    have t: "truthy (threadId ?s1)" using assms(2) by simp
    have p: "status ?s1 = PendingDeletion" by simp
    have e: "sid \<in> set (getExpiredSessions now m')"
      using g p by (rule pending_in_getExpiredSessions)
    have b: "fst (cleanupSessionBegin sid m') = True"
      using g t by (rule cleanupSessionBegin_pending)
    have d1: "ClearChat sid \<in> set (fst (cleanupExpiredSessions del now m'))" if "del sid = Deleted"
      unfolding cleanupExpiredSessions_def using e g t that by (rule cleanupLoop_broadcasts)
    have d2: "getSession sid (snd (cleanupExpiredSessions del now m')) = None"
      if "del sid = Deleted \<or> del sid = DelError (Some 404)"
      unfolding cleanupExpiredSessions_def using e g t that by (rule cleanupLoop_removes)
    have d3: "getSession sid (snd (cleanupExpiredSessions del now m')) = Some ?s1"
      if "del sid = DelError st'" "st' \<noteq> Some 404" for st'
      unfolding cleanupExpiredSessions_def using g t p that by (rule cleanupLoop_still_pending)
    show ?thesis using g e b d1 d2 d3 by blast
  qed
  show ?thesis using quiet gone retry only by blast
qed

theorem cleanupSession_remote_failure_witness:
  "fst (cleanupSession (DelError (Some 404)) ''s''
          (run [Create ''s'' 0, SetThread ''s'' ''t''] emptyManager)) = []
   \<and> getSession ''s'' (snd (cleanupSession (DelError (Some 404)) ''s''
          (run [Create ''s'' 0, SetThread ''s'' ''t''] emptyManager))) = None
   \<and> fst (cleanupSession (DelError (Some 500)) ''s''
          (run [Create ''s'' 0, SetThread ''s'' ''t''] emptyManager)) = []
   \<and> getSession ''s'' (snd (cleanupSession (DelError (Some 500)) ''s''
          (run [Create ''s'' 0, SetThread ''s'' ''t''] emptyManager)))
      = Some \<lparr>threadId = Some ''t'', lastActive = 0, timeoutId = None, status = PendingDeletion\<rparr>
   \<and> ''s'' \<in> set (getExpiredSessions 1 (snd (cleanupSession (DelError (Some 500)) ''s''
          (run [Create ''s'' 0, SetThread ''s'' ''t''] emptyManager))))
   \<and> fst (cleanupSessionBegin ''s'' (snd (cleanupSession (DelError (Some 500)) ''s''
          (run [Create ''s'' 0, SetThread ''s'' ''t''] emptyManager)))) = True
   \<and> ClearChat ''s'' \<in> set (fst (cleanupExpiredSessions (\<lambda>k. Deleted) 1
          (snd (cleanupSession (DelError (Some 500)) ''s''
             (run [Create ''s'' 0, SetThread ''s'' ''t''] emptyManager)))))
   \<and> getSession ''s'' (snd (cleanupExpiredSessions (\<lambda>k. Deleted) 1
          (snd (cleanupSession (DelError (Some 500)) ''s''
             (run [Create ''s'' 0, SetThread ''s'' ''t''] emptyManager))))) = None"
proof -
  let ?m = "run [Create ''s'' 0, SetThread ''s'' ''t''] emptyManager"
  let ?s = "\<lparr>threadId = Some ''t'', lastActive = 0, timeoutId = None, status = Active\<rparr>"
  have g: "getSession ''s'' ?m = Some ?s"
    by (simp add: run_eval)
  have t: "truthy (threadId ?s)"
    by (simp add: truthy_def)
  show ?thesis
    using cleanupSession_remote_failure [OF g t refl, of "Some 404" 1 "\<lambda>k. Deleted"]
      cleanupSession_remote_failure [OF g t refl, of "Some 500" 1 "\<lambda>k. Deleted"] by simp
qed

text \<open>
  C10. \<open>cleanupSession\<close> emits \<open>clear_chat\<close> exactly when the session has a thread and
  \<open>threads.del\<close> resolved. A session without a thread is deleted with no broadcast, and
  so is one whose deletion was rejected with 404.
\<close>

theorem clear_chat_only_after_remote_deletion:
  "fst (cleanupSession r sid m) =
     (if (\<exists>s. getSession sid m = Some s \<and> truthy (threadId s)) \<and> r = Deleted
      then [ClearChat sid] else [])
   \<and> ((\<exists>s. getSession sid m = Some s
            \<and> (\<not> truthy (threadId s) \<or> r = Deleted \<or> r = DelError (Some 404)))
        \<longrightarrow> getSession sid (snd (cleanupSession r sid m)) = None)"
proof (cases "getSession sid m")
  case None
  then show ?thesis by (simp add: cleanupSession_absent)
next
  case (Some s)
  show ?thesis
  proof (cases "truthy (threadId s)")
    case False
    then show ?thesis using Some
      by (simp add: cleanupSession_no_thread getSession_deleteSession)
  next
    case True
    show ?thesis
      unfolding cleanupSession_thread [OF Some True] using Some True
      by (cases r) (simp_all add: cleanupSessionResume_def getSession_deleteSession)
  qed
qed

theorem clear_chat_only_after_remote_deletion_witness:
  "fst (cleanupSession Deleted ''s'' (run [Create ''s'' 0] emptyManager)) = []
   \<and> getSession ''s'' (snd (cleanupSession Deleted ''s'' (run [Create ''s'' 0] emptyManager))) = None
   \<and> fst (cleanupSession (DelError (Some 404)) ''s''
            (run [Create ''s'' 0, SetThread ''s'' ''t''] emptyManager)) = []
   \<and> getSession ''s'' (snd (cleanupSession (DelError (Some 404)) ''s''
            (run [Create ''s'' 0, SetThread ''s'' ''t''] emptyManager))) = None
   \<and> fst (cleanupSession Deleted ''s''
            (run [Create ''s'' 0, SetThread ''s'' ''t''] emptyManager)) = [ClearChat ''s'']"
proof -
  let ?m0 = "run [Create ''s'' 0] emptyManager"
  let ?m1 = "run [Create ''s'' 0, SetThread ''s'' ''t''] emptyManager"
  have g0: "getSession ''s'' ?m0
              = Some \<lparr>threadId = None, lastActive = 0, timeoutId = None, status = Active\<rparr>"
    by (simp add: run_eval)
  have g1: "getSession ''s'' ?m1
              = Some \<lparr>threadId = Some ''t'', lastActive = 0, timeoutId = None, status = Active\<rparr>"
    by (simp add: run_eval)
  show ?thesis
    using clear_chat_only_after_remote_deletion [of Deleted "''s''" ?m0]
      clear_chat_only_after_remote_deletion [of "DelError (Some 404)" "''s''" ?m1]
      clear_chat_only_after_remote_deletion [of Deleted "''s''" ?m1]
    by (simp add: g0 g1 truthy_def del: run.simps)
qed




text \<open>
  C5. After a normal completion the \<open>suggestions\<close> event was to carry exactly 3 entries
  or be omitted when the generator fails. \<open>generate\<close> catches its own failure and returns
  the empty array, which the end handler emits like any other result; and the array it
  returns otherwise is the \<open>quick_replies\<close> of the parsed answer, of whatever length.
\<close>

theorem suggestions_emitted_on_generator_failure:
  "emitted (fst (handlePrompt
      \<lparr>retrieveAssistant = True, threadsCreate = Some ''t1'', messagesCreate = True,
         runsStream = Some [TextCreated ''x'', TextDelta ''hi'' ''hi'', StreamEnd],
         completion = ApiRejected\<rparr>
      ''s'' ''hello'' (run [Create ''s'' 0, Refresh ''s'' 1] emptyManager)))
     = [TextCreatedEvent ''x'', TextDeltaEvent ''hi'' ''hi'', ResponseComplete, Suggestions (Some [])]
   \<and> emitted (fst (handlePrompt
      \<lparr>retrieveAssistant = True, threadsCreate = Some ''t1'', messagesCreate = True,
         runsStream = Some [TextCreated ''x'', TextDelta ''hi'' ''hi'', StreamEnd],
         completion = QuickReplies (Some [''More'', ''Why''])\<rparr>
      ''s'' ''hello'' (run [Create ''s'' 0, Refresh ''s'' 1] emptyManager)))
     = [TextCreatedEvent ''x'', TextDeltaEvent ''hi'' ''hi'', ResponseComplete,
        Suggestions (Some [''More'', ''Why''])]"
  by (simp add: handlePrompt_def run_eval onStreamEnd_def generate_def emit_def newTurn_def)

text \<open>
  C5, as the code has it. In a turn that completes normally, \<open>responseComplete\<close> is
  followed by one \<open>suggestions\<close> event, the last of the turn: it carries the
  \<open>quick_replies\<close> of the generator's answer, or the empty list when the generator fails.
  No error event is emitted, the generator is called once with the prompt and the full
  reply, and the session stays active.
\<close>

theorem suggestions_follow_completion:
  assumes "getSession sid m = Some s" "status s = Active" "retrieveAssistant b"
    "truthy (threadId s) \<or> threadsCreate b \<noteq> None" "messagesCreate b"
    "runsStream b = Some (pre @ [StreamEnd])"
    "StreamError \<notin> set pre" "StreamEnd \<notin> set pre"
  shows "\<exists>front. emitted (fst (handlePrompt b sid prompt m))
                    = front @ [ResponseComplete,
                               Suggestions (case completion b of
                                              QuickReplies q \<Rightarrow> q
                                            | ApiRejected \<Rightarrow> Some []
                                            | MalformedJson \<Rightarrow> Some [])]
           \<and> (\<forall>e \<in> set front. (\<exists>x. e = TextCreatedEvent x) \<or> (\<exists>v sn. e = TextDeltaEvent v sn))
           \<and> generateCalls (fst (handlePrompt b sid prompt m))
               = [(prompt, fullResponse (fst (handlePrompt b sid prompt m)))]
           \<and> hasSession sid (snd (handlePrompt b sid prompt m))"
proof -
  from handlePrompt_streams [OF assms(1-6)] obtain m1 where
    h: "handlePrompt b sid prompt m
          = streamEvents (completion b) sid prompt (pre @ [StreamEnd]) (newTurn, m1)"
    and act: "hasSession sid m1" by blast
  from streamEvents_text [OF assms(7,8)] obtain t' new where
    r: "streamEvents (completion b) sid prompt pre (newTurn, m1) = (t', m1)"
       "generateCalls t' = generateCalls newTurn"
       "emitted t' = emitted newTurn @ new" "\<forall>e \<in> set new. isTextEvent e"
    by blast
  have "handlePrompt b sid prompt m = onStreamEnd (completion b) sid prompt (t', m1)"
    by (simp add: h streamEvents_append r(1))
  then show ?thesis using r(2,3,4) act
    by (cases "completion b")
      (simp_all add: onStreamEnd_def generate_def emit_def newTurn_def isTextEvent_def
         hasSession_scheduleCleanup Let_def)
qed

theorem suggestions_follow_completion_witness:
  "\<exists>front. emitted (fst (handlePrompt
              \<lparr>retrieveAssistant = True, threadsCreate = Some ''t1'', messagesCreate = True,
                 runsStream = Some [TextCreated ''x'', TextDelta ''hi'' ''hi'', StreamEnd],
                 completion = MalformedJson\<rparr>
              ''s'' ''hello'' (run [Create ''s'' 0, Refresh ''s'' 1] emptyManager)))
            = front @ [ResponseComplete, Suggestions (Some [])]
      \<and> (\<forall>e \<in> set front. (\<exists>x. e = TextCreatedEvent x) \<or> (\<exists>v sn. e = TextDeltaEvent v sn))
      \<and> generateCalls (fst (handlePrompt
              \<lparr>retrieveAssistant = True, threadsCreate = Some ''t1'', messagesCreate = True,
                 runsStream = Some [TextCreated ''x'', TextDelta ''hi'' ''hi'', StreamEnd],
                 completion = MalformedJson\<rparr>
              ''s'' ''hello'' (run [Create ''s'' 0, Refresh ''s'' 1] emptyManager)))
          = [(''hello'', ''hi'')]
      \<and> hasSession ''s'' (snd (handlePrompt
              \<lparr>retrieveAssistant = True, threadsCreate = Some ''t1'', messagesCreate = True,
                 runsStream = Some [TextCreated ''x'', TextDelta ''hi'' ''hi'', StreamEnd],
                 completion = MalformedJson\<rparr>
              ''s'' ''hello'' (run [Create ''s'' 0, Refresh ''s'' 1] emptyManager)))"
proof -
  let ?b = "\<lparr>retrieveAssistant = True, threadsCreate = Some ''t1'', messagesCreate = True,
             runsStream = Some [TextCreated ''x'', TextDelta ''hi'' ''hi'', StreamEnd],
             completion = MalformedJson\<rparr>"
  let ?m = "run [Create ''s'' 0, Refresh ''s'' 1] emptyManager"
  let ?s = "\<lparr>threadId = None, lastActive = 1, timeoutId = Some 0, status = Active\<rparr>"
  have g: "getSession ''s'' ?m = Some ?s" by (simp add: run_eval)
  have a: "status ?s = Active" by simp
  have r: "retrieveAssistant ?b" by simp
  have t: "truthy (threadId ?s) \<or> threadsCreate ?b \<noteq> None" by simp
  have c: "messagesCreate ?b" by simp
  have e: "runsStream ?b = Some ([TextCreated ''x'', TextDelta ''hi'' ''hi''] @ [StreamEnd])" by simp
  have n1: "StreamError \<notin> set [TextCreated ''x'', TextDelta ''hi'' ''hi'']" by simp
  have n2: "StreamEnd \<notin> set [TextCreated ''x'', TextDelta ''hi'' ''hi'']" by simp
  have f: "fullResponse (fst (handlePrompt ?b ''s'' ''hello'' ?m)) = ''hi''"
    by (simp add: handlePrompt_def run_eval onStreamEnd_def generate_def emit_def newTurn_def)
  show ?thesis
    using suggestions_follow_completion [OF g a r t c e n1 n2, of "''hello''"] f by simp
qed

end
